theory Spec2Isabelle
  imports Main
begin

section \<open>The object store\<close>

text \<open>
  \<^verbatim>\<open>GameState\<close> (src/src/g2c.py, lines 66-88) keeps two attributes: \<^verbatim>\<open>data\<close>, a
  Python dict, and \<^verbatim>\<open>history\<close>, a Python list of dicts. Python dicts are mutable
  objects handled by reference, and \<^verbatim>\<open>save_checkpoint\<close> and \<^verbatim>\<open>restore_checkpoint\<close>
  go through \<^verbatim>\<open>dict.copy()\<close>, so whether two names denote the same dict object
  matters. The model is therefore an explicit store: dict objects live at addresses,
  \<^verbatim>\<open>data\<close> holds the address of a dict, \<^verbatim>\<open>history\<close> a list of addresses.

  A value of Python's \<^verbatim>\<open>Any\<close> is either an immutable scalar or a reference to a
  (mutable) dict object. Keys are strings, as the annotation \<^verbatim>\<open>Dict[str, Any]\<close> says.
\<close>

type_synonym addr = nat

datatype val = VNone | VBool bool | VInt int | VStr string | VRef addr

type_synonym pydict = "string \<rightharpoonup> val"

datatype error = IndexError | TypeError | EOFError

text \<open>
  The store: \<open>cells\<close> gives the contents of the dict object at each address,
  \<open>next_free\<close> is the first address that no object occupies yet.
\<close>

record heap =
  cells :: "addr \<Rightarrow> pydict"
  next_free :: addr

text \<open>
  A \<^verbatim>\<open>GameState\<close> instance together with the store it lives in: the two attributes
  of the class, on top of the heap.
\<close>

record GameState = heap +
  data :: addr
  history :: "addr list"

text \<open>\<^verbatim>\<open>d[key] = value\<close>: item assignment mutates the dict object at \<open>a\<close> in place.\<close>

definition dict_setitem :: "addr \<Rightarrow> string \<Rightarrow> val \<Rightarrow> GameState \<Rightarrow> GameState" where
  "dict_setitem a key v w = w\<lparr>cells := (cells w)(a := (cells w a)(key \<mapsto> v))\<rparr>"

text \<open>\<^verbatim>\<open>d.get(key, default)\<close>: the value bound to \<open>key\<close>, or \<open>default\<close> when there is none.\<close>

definition dict_get :: "addr \<Rightarrow> string \<Rightarrow> val \<Rightarrow> GameState \<Rightarrow> val" where
  "dict_get a key dflt w = (case cells w a key of Some v \<Rightarrow> v | None \<Rightarrow> dflt)"

text \<open>
  \<^verbatim>\<open>d.copy()\<close>: a new dict object with the same bindings (the values themselves are not
  copied). It returns the address of the new object and the store that holds it.
\<close>

definition dict_copy :: "addr \<Rightarrow> GameState \<Rightarrow> addr \<times> GameState" where
  "dict_copy a w =
     (next_free w,
      w\<lparr>cells := (cells w)(next_free w := cells w a), next_free := Suc (next_free w)\<rparr>)"

text \<open>
  \<^verbatim>\<open>xs[i]\<close> on a Python list: a negative index counts from the end, an index outside
  \<open>-len(xs) .. len(xs) - 1\<close> raises \<^verbatim>\<open>IndexError\<close>.
\<close>

definition list_getitem :: "'a list \<Rightarrow> int \<Rightarrow> error + 'a" where
  "list_getitem xs i =
     (if 0 \<le> i \<and> i < int (length xs) then Inr (xs ! nat i)
      else if i < 0 \<and> - int (length xs) \<le> i then Inr (xs ! nat (int (length xs) + i))
      else Inl IndexError)"

section \<open>GameState\<close>

text \<open>\<^verbatim>\<open>__init__\<close>: \<^verbatim>\<open>self.data = {}\<close>, \<^verbatim>\<open>self.history = []\<close>, in a store that holds nothing else.\<close>

definition GameState_init :: GameState where
  "GameState_init =
     \<lparr>cells = (\<lambda>a. Map.empty), next_free = 1, data = 0, history = []\<rparr>"

text \<open>\<^verbatim>\<open>set\<close>: \<^verbatim>\<open>self.data[key] = value\<close>.\<close>

definition GameState_set :: "string \<Rightarrow> val \<Rightarrow> GameState \<Rightarrow> GameState" where
  "GameState_set key v w = dict_setitem (data w) key v w"

text \<open>\<^verbatim>\<open>get\<close>: \<^verbatim>\<open>return self.data.get(key, default)\<close>; the default of \<open>default\<close> is \<^verbatim>\<open>None\<close>.\<close>

definition GameState_get :: "string \<Rightarrow> val \<Rightarrow> GameState \<Rightarrow> val" where
  "GameState_get key dflt w = dict_get (data w) key dflt w"

definition GameState_get1 :: "string \<Rightarrow> GameState \<Rightarrow> val" where
  "GameState_get1 key w = GameState_get key VNone w"

text \<open>\<^verbatim>\<open>save_checkpoint\<close>: \<^verbatim>\<open>self.history.append(self.data.copy())\<close>.\<close>

definition save_checkpoint :: "GameState \<Rightarrow> GameState" where
  "save_checkpoint w =
     (case dict_copy (data w) w of (a, w') \<Rightarrow> w'\<lparr>history := history w' @ [a]\<rparr>)"

text \<open>
  \<^verbatim>\<open>restore_checkpoint\<close>: \<^verbatim>\<open>if self.history: self.data = self.history[index].copy()\<close>.
  The index is looked up before the copy is made, so an \<^verbatim>\<open>IndexError\<close> leaves the
  state as it was. The default of \<open>index\<close> is \<open>-1\<close>.
\<close>

definition restore_checkpoint :: "int \<Rightarrow> GameState \<Rightarrow> error + GameState" where
  "restore_checkpoint index w =
     (if history w \<noteq> [] then
        (case list_getitem (history w) index of
           Inl e \<Rightarrow> Inl e
         | Inr src \<Rightarrow> (case dict_copy src w of (a, w') \<Rightarrow> Inr (w'\<lparr>data := a\<rparr>)))
      else Inr w)"

definition restore_checkpoint0 :: "GameState \<Rightarrow> error + GameState" where
  "restore_checkpoint0 w = restore_checkpoint (- 1) w"

text \<open>The current mapping: the contents of the dict object that \<^verbatim>\<open>self.data\<close> refers to.\<close>

definition current :: "GameState \<Rightarrow> pydict" where
  "current w = cells w (data w)"

text \<open>The snapshots held, oldest first: the contents of the dict objects in \<^verbatim>\<open>self.history\<close>.\<close>

definition snapshots :: "GameState \<Rightarrow> pydict list" where
  "snapshots w = map (cells w) (history w)"

text \<open>
  What the class maintains about its two attributes: both refer to objects that exist,
  and the live dict is none of the dicts kept in the history.
\<close>

definition GameState_ok :: "GameState \<Rightarrow> bool" where
  "GameState_ok w \<longleftrightarrow>
     data w < next_free w \<and> (\<forall>a \<in> set (history w). a < next_free w) \<and>
     data w \<notin> set (history w)"

subsection \<open>Calls and sequences of calls\<close>

text \<open>
  A method call returns a value (\<^verbatim>\<open>None\<close> for the three mutators) and leaves a state, or
  it raises.
\<close>

datatype call = Set string val | Get string val | SaveCheckpoint | RestoreCheckpoint int

fun invoke :: "call \<Rightarrow> GameState \<Rightarrow> error + (val \<times> GameState)" where
  "invoke (Set key v) w = Inr (VNone, GameState_set key v w)"
| "invoke (Get key dflt) w = Inr (GameState_get key dflt w, w)"
| "invoke SaveCheckpoint w = Inr (VNone, save_checkpoint w)"
| "invoke (RestoreCheckpoint index) w =
     (case restore_checkpoint index w of Inl e \<Rightarrow> Inl e | Inr w' \<Rightarrow> Inr (VNone, w'))"

text \<open>Calls made one after the other; the first one that raises ends the run.\<close>

fun run :: "call list \<Rightarrow> GameState \<Rightarrow> error + GameState" where
  "run [] w = Inr w"
| "run (c # cs) w = (case invoke c w of Inl e \<Rightarrow> Inl e | Inr (r, w') \<Rightarrow> run cs w')"

text \<open>A sequence of \<^verbatim>\<open>set\<close> calls, given by their arguments.\<close>

fun set_all :: "(string \<times> val) list \<Rightarrow> GameState \<Rightarrow> GameState" where
  "set_all [] w = w"
| "set_all ((key, v) # kvs) w = set_all kvs (GameState_set key v w)"

subsection \<open>Client code that reaches into a nested value\<close>

text \<open>
  \<^verbatim>\<open>state.get(key)[key2] = v\<close>: the caller fetches the value bound to \<open>key\<close> and assigns
  an item of it in place. Only a dict supports that; on a scalar Python raises
  \<^verbatim>\<open>TypeError\<close>.
\<close>

definition nested_setitem :: "string \<Rightarrow> string \<Rightarrow> val \<Rightarrow> GameState \<Rightarrow> error + GameState" where
  "nested_setitem key key2 v w =
     (case GameState_get1 key w of
        VRef a \<Rightarrow> Inr (dict_setitem a key2 v w)
      | _ \<Rightarrow> Inl TypeError)"

text \<open>\<^verbatim>\<open>{}\<close> in client code: a new, empty dict object.\<close>

definition dict_new :: "GameState \<Rightarrow> addr \<times> GameState" where
  "dict_new w =
     (next_free w,
      w\<lparr>cells := (cells w)(next_free w := Map.empty), next_free := Suc (next_free w)\<rparr>)"

text \<open>\<^verbatim>\<open>d[key][key2]\<close> read through the dict at \<open>s\<close>, when \<open>key\<close> is bound to a dict there.\<close>

definition nested_lookup :: "addr \<Rightarrow> string \<Rightarrow> string \<Rightarrow> GameState \<Rightarrow> val option" where
  "nested_lookup s key key2 w =
     (case cells w s key of Some (VRef a) \<Rightarrow> cells w a key2 | _ \<Rightarrow> None)"

section \<open>Reading a number from the input\<close>

text \<open>
  \<^verbatim>\<open>get_number\<close> (src/src/g2c.py, lines 109-123) loops: it prompts, reads a line,
  converts it with the builtin \<^verbatim>\<open>int\<close>, and returns the value unless the conversion
  raises \<^verbatim>\<open>ValueError\<close> or a supplied bound is violated, in which case it prints a
  message and reads again. The input stream is the list of lines still to be read;
  \<^verbatim>\<open>input\<close> on an exhausted stream raises \<^verbatim>\<open>EOFError\<close>, which the loop does not catch.
  The builtin conversion is a parameter \<open>parse\<close>: \<open>None\<close> stands for \<^verbatim>\<open>ValueError\<close>.
\<close>

datatype message = Prompt string | AtLeast int | AtMost int | InvalidNumber

definition emit :: "message list \<Rightarrow> message list \<times> 'a \<Rightarrow> message list \<times> 'a" where
  "emit ms r = (ms @ fst r, snd r)"

fun get_number ::
  "(string \<Rightarrow> int option) \<Rightarrow> string \<Rightarrow> int option \<Rightarrow> int option \<Rightarrow> string list
     \<Rightarrow> message list \<times> (error + int \<times> string list)" where
  "get_number parse prompt min_val max_val [] = ([Prompt prompt], Inl EOFError)"
| "get_number parse prompt min_val max_val (line # rest) =
     (case parse line of
        None \<Rightarrow>
          emit [Prompt prompt, InvalidNumber] (get_number parse prompt min_val max_val rest)
      | Some v \<Rightarrow>
          (case min_val of
             Some lo \<Rightarrow>
               if v < lo then
                 emit [Prompt prompt, AtLeast lo] (get_number parse prompt min_val max_val rest)
               else
                 (case max_val of
                    Some hi \<Rightarrow>
                      if v > hi then
                        emit [Prompt prompt, AtMost hi]
                          (get_number parse prompt min_val max_val rest)
                      else ([Prompt prompt], Inr (v, rest))
                  | None \<Rightarrow> ([Prompt prompt], Inr (v, rest)))
           | None \<Rightarrow>
               (case max_val of
                  Some hi \<Rightarrow>
                    if v > hi then
                      emit [Prompt prompt, AtMost hi]
                        (get_number parse prompt min_val max_val rest)
                    else ([Prompt prompt], Inr (v, rest))
                | None \<Rightarrow> ([Prompt prompt], Inr (v, rest)))))"

text \<open>A line that the loop returns on: it converts, and the value respects the bounds supplied.\<close>

definition accepted :: "(string \<Rightarrow> int option) \<Rightarrow> int option \<Rightarrow> int option \<Rightarrow> string \<Rightarrow> bool" where
  "accepted parse min_val max_val line =
     (case parse line of
        None \<Rightarrow> False
      | Some v \<Rightarrow>
          (case min_val of Some lo \<Rightarrow> lo \<le> v | None \<Rightarrow> True) \<and>
          (case max_val of Some hi \<Rightarrow> v \<le> hi | None \<Rightarrow> True))"

text \<open>
  A conversion to run the loop on: plain decimal numerals, an optional minus sign and
  then one or more digits. (The builtin accepts more, such as surrounding blanks; what
  is proved about \<open>get_number\<close> holds for every conversion.)
\<close>

definition digit_of :: "char \<Rightarrow> nat option" where
  "digit_of c =
     (if 48 \<le> (of_char c :: nat) \<and> (of_char c :: nat) \<le> 57
      then Some (of_char c - 48) else None)"

fun digits_from :: "nat \<Rightarrow> string \<Rightarrow> nat option" where
  "digits_from acc [] = Some acc"
| "digits_from acc (c # cs) =
     (case digit_of c of None \<Rightarrow> None | Some d \<Rightarrow> digits_from (10 * acc + d) cs)"

fun decimal :: "string \<Rightarrow> int option" where
  "decimal [] = None"
| "decimal (c # cs) =
     (if c = CHR ''-'' then
        (if cs = [] then None else map_option (\<lambda>n. - int n) (digits_from 0 cs))
      else map_option int (digits_from 0 (c # cs)))"

section \<open>What each operation does to the store\<close>

lemma set_fields:
  "cells (GameState_set k v w) = (cells w)(data w := (cells w (data w))(k \<mapsto> v))"
  "next_free (GameState_set k v w) = next_free w"
  "data (GameState_set k v w) = data w"
  "history (GameState_set k v w) = history w"
  by (simp_all add: GameState_set_def dict_setitem_def)

lemma save_fields:
  "cells (save_checkpoint w) = (cells w)(next_free w := cells w (data w))"
  "next_free (save_checkpoint w) = Suc (next_free w)"
  "data (save_checkpoint w) = data w"
  "history (save_checkpoint w) = history w @ [next_free w]"
  by (simp_all add: save_checkpoint_def dict_copy_def)

lemma list_getitem_last: "xs \<noteq> [] \<Longrightarrow> list_getitem xs (- 1) = Inr (last xs)"
  by (cases xs rule: rev_cases) (simp_all add: list_getitem_def)

lemma list_getitem_neg:
  assumes "1 \<le> j" "j \<le> length xs"
  shows "list_getitem xs (- int j) = Inr (xs ! (length xs - j))"
  using assms by (simp add: list_getitem_def nat_diff_distrib')

lemma list_getitem_Inr_iff:
  "(\<exists>x. list_getitem xs i = Inr x) \<longleftrightarrow> - int (length xs) \<le> i \<and> i < int (length xs)"
  by (auto simp: list_getitem_def)

lemma list_getitem_mem: "list_getitem xs i = Inr x \<Longrightarrow> x \<in> set xs"
  by (auto simp: list_getitem_def split: if_splits)

lemma restore_fields:
  assumes "list_getitem (history w) i = Inr src"
  shows "restore_checkpoint i w =
    Inr (w\<lparr>cells := (cells w)(next_free w := cells w src), next_free := Suc (next_free w),
          data := next_free w\<rparr>)"
  using assms by (auto simp: restore_checkpoint_def dict_copy_def list_getitem_def split: if_splits)

lemma restore_empty: "history w = [] \<Longrightarrow> restore_checkpoint i w = Inr w"
  by (simp add: restore_checkpoint_def)


lemma set_all_fields:
  "history (set_all kvs w) = history w \<and> data (set_all kvs w) = data w \<and>
   next_free (set_all kvs w) = next_free w"
  by (induction kvs arbitrary: w) (auto simp: set_fields)

lemma set_all_cells: "a \<noteq> data w \<Longrightarrow> cells (set_all kvs w) a = cells w a"
proof (induction kvs arbitrary: w)
  case Nil
  then show ?case by simp
next
  case (Cons kv kvs)
  obtain k v where kv: "kv = (k, v)" by (cases kv)
  from Cons.prems have "a \<noteq> data (GameState_set k v w)" by (simp add: set_fields)
  then have "cells (set_all kvs (GameState_set k v w)) a = cells (GameState_set k v w) a"
    by (rule Cons.IH)
  with Cons.prems kv show ?case by (simp add: set_fields)
qed

lemma ok_init: "GameState_ok GameState_init"
  by (simp add: GameState_ok_def GameState_init_def)

lemma ok_set: "GameState_ok w \<Longrightarrow> GameState_ok (GameState_set k v w)"
  by (simp add: GameState_ok_def set_fields)

lemma ok_save: "GameState_ok w \<Longrightarrow> GameState_ok (save_checkpoint w)"
  by (auto simp: GameState_ok_def save_fields)

lemma ok_restore:
  assumes "GameState_ok w" "restore_checkpoint i w = Inr w'"
  shows "GameState_ok w'"
proof (cases "history w = []")
  case True
  with assms show ?thesis by (simp add: restore_empty)
next
  case False
  with assms(2) obtain src where src: "list_getitem (history w) i = Inr src"
    by (auto simp: restore_checkpoint_def split: sum.splits)
  from assms(2) restore_fields[OF src]
  have w': "next_free w' = Suc (next_free w)" "data w' = next_free w" "history w' = history w"
    by auto
  have "a < Suc (next_free w)" if "a \<in> set (history w)" for a
    using assms(1) that by (simp add: GameState_ok_def less_SucI)
  moreover have "next_free w \<notin> set (history w)"
    using assms(1) by (auto simp: GameState_ok_def)
  ultimately show ?thesis
    by (simp add: GameState_ok_def w')
qed

lemma ok_invoke: "GameState_ok w \<Longrightarrow> invoke c w = Inr (r, w') \<Longrightarrow> GameState_ok w'"
  by (cases c) (auto simp: ok_set ok_save split: sum.splits dest: ok_restore)

lemma ok_run: "GameState_ok w \<Longrightarrow> run cs w = Inr w' \<Longrightarrow> GameState_ok w'"
proof (induction cs arbitrary: w)
  case Nil
  then show ?case by simp
next
  case (Cons c cs)
  then show ?case by (auto split: sum.splits dest: ok_invoke)
qed

lemma reachable_ok: "run cs GameState_init = Inr w \<Longrightarrow> GameState_ok w"
  using ok_init by (rule ok_run)

lemma snapshots_frame:
  assumes "history w' = history w" "\<And>a. a \<in> set (history w) \<Longrightarrow> cells w' a = cells w a"
  shows "snapshots w' = snapshots w"
  using assms by (simp add: snapshots_def)

lemma restore_last:
  assumes "history w \<noteq> []"
  shows "restore_checkpoint (- 1) w =
    Inr (w\<lparr>cells := (cells w)(next_free w := cells w (last (history w))),
          next_free := Suc (next_free w), data := next_free w\<rparr>)"
  using assms by (simp add: restore_fields list_getitem_last)

lemma never_set_invoke:
  assumes "current w k = None" "\<forall>a \<in> set (history w). cells w a k = None"
    and "invoke c w = Inr (r, w')" "\<forall>v. c \<noteq> Set k v"
  shows "current w' k = None \<and> (\<forall>a \<in> set (history w'). cells w' a k = None)"
proof (cases c)
  case (Set k' v)
  with assms(4) have "k' \<noteq> k" by blast
  with Set assms(1-3) show ?thesis
    by (auto simp: current_def set_fields split: if_splits)
next
  case (Get k' d)
  with assms(1-3) show ?thesis by auto
next
  case SaveCheckpoint
  with assms(1-3) show ?thesis
    by (auto simp: current_def save_fields)
next
  case (RestoreCheckpoint i)
  show ?thesis
  proof (cases "history w = []")
    case True
    with RestoreCheckpoint assms(1-3) show ?thesis
      by (simp add: restore_empty)
  next
    case False
    with RestoreCheckpoint assms(3) obtain src where src: "list_getitem (history w) i = Inr src"
      by (auto simp: restore_checkpoint_def split: sum.splits)
    then have "src \<in> set (history w)" by (rule list_getitem_mem)
    with assms(2) have "cells w src k = None" by blast
    with RestoreCheckpoint assms(2,3) restore_fields[OF src] show ?thesis
      by (auto simp: current_def)
  qed
qed

lemma never_set_run:
  assumes "run cs w = Inr w'" "\<forall>v. Set k v \<notin> set cs"
    and "current w k = None" "\<forall>a \<in> set (history w). cells w a k = None"
  shows "current w' k = None \<and> (\<forall>a \<in> set (history w'). cells w' a k = None)"
  using assms
proof (induction cs arbitrary: w)
  case Nil
  then show ?case by simp
next
  case (Cons c cs)
  from Cons.prems(1) obtain r w1 where c: "invoke c w = Inr (r, w1)" and cs: "run cs w1 = Inr w'"
    by (auto split: sum.splits)
  from Cons.prems(2) have "\<forall>v. c \<noteq> Set k v" and rest: "\<forall>v. Set k v \<notin> set cs" by auto
  with never_set_invoke[OF Cons.prems(3,4) c]
  have "current w1 k = None" "\<forall>a \<in> set (history w1). cells w1 a k = None" by blast+
  with Cons.IH[OF cs rest] show ?case by blast
qed

lemma never_set_unbound:
  assumes "run cs GameState_init = Inr w" "\<forall>v. Set k v \<notin> set cs"
  shows "k \<notin> dom (current w)"
proof -
  have "current GameState_init k = None"
    "\<forall>a \<in> set (history GameState_init). cells GameState_init a k = None"
    by (simp_all add: current_def GameState_init_def)
  with never_set_run[OF assms] show ?thesis by (simp add: domIff)
qed

text \<open>The loop of \<open>get_number\<close>, one line at a time, and when it returns.\<close>

lemma snd_emit: "snd (emit ms r) = snd r"
  by (simp add: emit_def)

lemma get_number_step:
  "snd (get_number parse prompt min_val max_val (line # rest)) =
     (case parse line of
        None \<Rightarrow> snd (get_number parse prompt min_val max_val rest)
      | Some v \<Rightarrow>
          if accepted parse min_val max_val line then Inr (v, rest)
          else snd (get_number parse prompt min_val max_val rest))"
  by (auto simp: snd_emit accepted_def split: option.splits)

lemma get_number_skips:
  assumes "snd (get_number parse prompt min_val max_val lines) = Inr (v, rest)"
  shows "\<exists>skipped line. lines = skipped @ line # rest \<and> parse line = Some v \<and>
           accepted parse min_val max_val line \<and>
           (\<forall>l \<in> set skipped. \<not> accepted parse min_val max_val l)"
  using assms
proof (induction lines)
  case Nil
  then show ?case by simp
next
  case (Cons x xs)
  show ?case
  proof (cases "accepted parse min_val max_val x")
    case True
    then obtain u where u: "parse x = Some u"
      by (auto simp: accepted_def split: option.splits)
    with True Cons.prems have "u = v" "xs = rest"
      by (simp_all add: get_number_step del: get_number.simps(2))
    with u True have "x # xs = [] @ x # rest \<and> parse x = Some v \<and>
        accepted parse min_val max_val x \<and> (\<forall>l \<in> set []. \<not> accepted parse min_val max_val l)"
      by simp
    then show ?thesis by blast
  next
    case False
    with Cons.prems have "snd (get_number parse prompt min_val max_val xs) = Inr (v, rest)"
      by (simp add: get_number_step del: get_number.simps(2) split: option.splits)
    from Cons.IH[OF this] obtain skipped line where
      sk: "xs = skipped @ line # rest" "parse line = Some v"
        "accepted parse min_val max_val line"
        "\<forall>l \<in> set skipped. \<not> accepted parse min_val max_val l"
      by blast
    with False have "x # xs = (x # skipped) @ line # rest \<and> parse line = Some v \<and>
        accepted parse min_val max_val line \<and>
        (\<forall>l \<in> set (x # skipped). \<not> accepted parse min_val max_val l)"
      by simp
    then show ?thesis by blast
  qed
qed

lemma get_number_eof:
  "snd (get_number parse prompt min_val max_val lines) = Inl EOFError \<longleftrightarrow>
     (\<forall>l \<in> set lines. \<not> accepted parse min_val max_val l)"
  by (induction lines) (auto simp: get_number_step accepted_def simp del: get_number.simps(2) split: option.splits)

lemma get_number_error: "snd (get_number parse prompt min_val max_val lines) = Inl e \<Longrightarrow> e = EOFError"
  by (induction lines)
    (auto simp: get_number_step simp del: get_number.simps(2) split: option.splits if_splits)

lemma get_number_returns:
  "(\<exists>v rest. snd (get_number parse prompt min_val max_val lines) = Inr (v, rest)) \<longleftrightarrow>
     (\<exists>l \<in> set lines. accepted parse min_val max_val l)"
proof -
  have "(\<exists>v rest. snd (get_number parse prompt min_val max_val lines) = Inr (v, rest)) \<longleftrightarrow>
      snd (get_number parse prompt min_val max_val lines) \<noteq> Inl EOFError"
    by (cases "snd (get_number parse prompt min_val max_val lines)")
       (auto dest: get_number_error)
  then show ?thesis by (simp add: get_number_eof)
qed

section \<open>Reading back what was written\<close>

text \<open>
  C1. For every key \<open>k\<close> and value \<open>v\<close>, \<^verbatim>\<open>set(k, v)\<close> followed by \<^verbatim>\<open>get(k)\<close> returns
  \<open>v\<close>, whatever the current mapping held before (and whatever default is passed to
  \<^verbatim>\<open>get\<close>, the omitted one included).
\<close>

theorem set_then_get:
  "GameState_get1 k (GameState_set k v w) = v \<and>
   GameState_get k d (GameState_set k v w) = v"
  by (simp add: GameState_get1_def GameState_get_def GameState_set_def
      dict_get_def dict_setitem_def)

section \<open>Snapshots are copies\<close>

text \<open>
  C2. Copy on snapshot: once \<^verbatim>\<open>save_checkpoint()\<close> has run, no sequence of \<^verbatim>\<open>set(k, v)\<close>
  calls changes a stored history entry. The history still lists the same dict objects,
  each of them still holds the bindings it held, and the newest entry holds the
  bindings the current mapping had when the snapshot was taken. The state is one the
  class maintains (\<open>GameState_ok\<close>: the live dict is not itself an entry of the history).
\<close>

theorem copy_on_snapshot:
  assumes "GameState_ok w"
  shows "history (set_all kvs (save_checkpoint w)) = history (save_checkpoint w) \<and>
         (\<forall>a \<in> set (history (save_checkpoint w)).
            cells (set_all kvs (save_checkpoint w)) a = cells (save_checkpoint w) a) \<and>
         snapshots (set_all kvs (save_checkpoint w)) = snapshots (save_checkpoint w) \<and>
         snapshots (save_checkpoint w) = snapshots w @ [current w]"
proof -
  let ?w1 = "save_checkpoint w"
  have h: "history (set_all kvs ?w1) = history ?w1"
    by (simp add: set_all_fields)
  have sep: "data ?w1 \<notin> set (history ?w1)"
    using ok_save[OF assms] by (simp add: GameState_ok_def)
  have c: "cells (set_all kvs ?w1) a = cells ?w1 a" if "a \<in> set (history ?w1)" for a
  proof -
    from that sep have "a \<noteq> data ?w1" by blast
    then show ?thesis by (rule set_all_cells)
  qed
  have s: "snapshots (set_all kvs ?w1) = snapshots ?w1"
    using h c by (rule snapshots_frame)
  have old: "\<And>a. a \<in> set (history w) \<Longrightarrow> a \<noteq> next_free w"
    using assms by (auto simp: GameState_ok_def)
  have t: "snapshots ?w1 = snapshots w @ [current w]"
    using old by (simp add: snapshots_def save_fields current_def)
  from h c s t show ?thesis by blast
qed


theorem copy_on_snapshot_witness:
  "GameState_ok (GameState_set ''score'' (VInt 1000) GameState_init) \<and>
   map (\<lambda>m. m ''score'')
     (snapshots (set_all [(''score'', VInt 2000), (''level'', VInt 2)]
        (save_checkpoint (GameState_set ''score'' (VInt 1000) GameState_init)))) =
     [Some (VInt 1000)] \<and>
   GameState_get1 ''score''
     (set_all [(''score'', VInt 2000), (''level'', VInt 2)]
        (save_checkpoint (GameState_set ''score'' (VInt 1000) GameState_init))) = VInt 2000"
proof -
  let ?w = "GameState_set ''score'' (VInt 1000) GameState_init"
  have ok: "GameState_ok ?w"
    by (simp add: GameState_ok_def GameState_init_def set_fields)
  have cur: "current ?w ''score'' = Some (VInt 1000)"
    by (simp add: current_def set_fields)
  have "snapshots ?w = []"
    by (simp add: snapshots_def set_fields GameState_init_def)
  with copy_on_snapshot [OF ok, of "[(''score'', VInt 2000), (''level'', VInt 2)]"] cur
  have "map (\<lambda>m. m ''score'')
     (snapshots (set_all [(''score'', VInt 2000), (''level'', VInt 2)] (save_checkpoint ?w))) =
     [Some (VInt 1000)]"
    by simp
  moreover have "GameState_get1 ''score''
     (set_all [(''score'', VInt 2000), (''level'', VInt 2)] (save_checkpoint ?w)) = VInt 2000"
    by (simp add: GameState_get1_def GameState_get_def dict_get_def set_fields save_fields)
  ultimately show ?thesis using ok by blast
qed

section \<open>Restoring a checkpoint\<close>

text \<open>
  C3. When the history is not empty, \<^verbatim>\<open>restore_checkpoint()\<close> with no argument succeeds
  and makes the current mapping equal to the most recently saved snapshot, so that every
  later \<^verbatim>\<open>get(k)\<close> (with or without a default) answers as a lookup in that snapshot
  would. A negative index \<open>-j\<close> with \<open>1 \<le> j \<le> len(history)\<close> selects the \<open>j\<close>-th entry
  from the end. And the sequence \<^verbatim>\<open>set("score", 1000)\<close>, \<^verbatim>\<open>save_checkpoint()\<close>,
  \<^verbatim>\<open>set("score", 2000)\<close>, \<^verbatim>\<open>restore_checkpoint()\<close> on a new GameState leaves
  \<^verbatim>\<open>get("score")\<close> equal to 1000.
\<close>

theorem restore_latest:
  assumes "history w \<noteq> []"
  shows "(\<exists>w'. restore_checkpoint0 w = Inr w' \<and>
            current w' = cells w (last (history w)) \<and>
            (\<forall>k. GameState_get1 k w' = dict_get (last (history w)) k VNone w) \<and>
            (\<forall>k d. GameState_get k d w' = dict_get (last (history w)) k d w)) \<and>
         (\<forall>j. 1 \<le> j \<and> j \<le> length (history w) \<longrightarrow>
            (\<exists>w'. restore_checkpoint (- int j) w = Inr w' \<and>
               current w' = cells w (history w ! (length (history w) - j)))) \<and>
         (case run [Set ''score'' (VInt 1000), SaveCheckpoint, Set ''score'' (VInt 2000),
                    RestoreCheckpoint (- 1)] GameState_init of
            Inr w' \<Rightarrow> GameState_get1 ''score'' w' = VInt 1000
          | Inl e \<Rightarrow> False)"
proof -
  have a: "\<exists>w'. restore_checkpoint0 w = Inr w' \<and>
            current w' = cells w (last (history w)) \<and>
            (\<forall>k. GameState_get1 k w' = dict_get (last (history w)) k VNone w) \<and>
            (\<forall>k d. GameState_get k d w' = dict_get (last (history w)) k d w)"
    using assms
    by (simp add: restore_checkpoint0_def restore_last current_def GameState_get1_def
        GameState_get_def dict_get_def)
  have b: "\<exists>w'. restore_checkpoint (- int j) w = Inr w' \<and>
               current w' = cells w (history w ! (length (history w) - j))"
    if "1 \<le> j \<and> j \<le> length (history w)" for j
  proof -
    from that have "list_getitem (history w) (- int j) = Inr (history w ! (length (history w) - j))"
      by (simp add: list_getitem_neg)
    then show ?thesis
      by (simp add: restore_fields current_def)
  qed
  have c: "(case run [Set ''score'' (VInt 1000), SaveCheckpoint, Set ''score'' (VInt 2000),
                    RestoreCheckpoint (- 1)] GameState_init of
            Inr w' \<Rightarrow> GameState_get1 ''score'' w' = VInt 1000
          | Inl e \<Rightarrow> False)"
    by (simp add: restore_last set_fields save_fields GameState_get1_def GameState_get_def
        dict_get_def GameState_init_def)
  from a b c show ?thesis by blast
qed

theorem restore_latest_witness:
  "history (GameState_set ''hp'' (VInt 3)
      (save_checkpoint (GameState_set ''hp'' (VInt 7) GameState_init))) \<noteq> [] \<and>
   (\<exists>w'. restore_checkpoint0 (GameState_set ''hp'' (VInt 3)
      (save_checkpoint (GameState_set ''hp'' (VInt 7) GameState_init))) = Inr w' \<and>
      GameState_get1 ''hp'' w' = VInt 7 \<and> GameState_get1 ''mp'' w' = VNone)"
proof -
  let ?w = "GameState_set ''hp'' (VInt 3)
      (save_checkpoint (GameState_set ''hp'' (VInt 7) GameState_init))"
  have h: "history ?w \<noteq> []"
    by (simp add: set_fields save_fields)
  have l: "dict_get (last (history ?w)) ''hp'' VNone ?w = VInt 7"
    by (simp add: dict_get_def set_fields save_fields GameState_init_def)
  have m: "dict_get (last (history ?w)) ''mp'' VNone ?w = VNone"
    by (simp add: dict_get_def set_fields save_fields GameState_init_def)
  from restore_latest [OF h] obtain w' where
    "restore_checkpoint0 ?w = Inr w'"
    "\<forall>k. GameState_get1 k w' = dict_get (last (history ?w)) k VNone ?w"
    by blast
  with l m have "restore_checkpoint0 ?w = Inr w' \<and>
      GameState_get1 ''hp'' w' = VInt 7 \<and> GameState_get1 ''mp'' w' = VNone"
    by simp
  with h show ?thesis by blast
qed

text \<open>
  C4. When the history is empty, \<^verbatim>\<open>restore_checkpoint(index)\<close> returns normally for every
  index, the omitted one included, and leaves the state, hence the current mapping, as
  it was.
\<close>

theorem restore_without_checkpoint:
  assumes "history w = []"
  shows "restore_checkpoint index w = Inr w \<and> restore_checkpoint0 w = Inr w \<and>
         invoke (RestoreCheckpoint index) w = Inr (VNone, w)"
  using assms by (simp add: restore_checkpoint_def restore_checkpoint0_def)

theorem restore_without_checkpoint_witness:
  "history (GameState_set ''score'' (VInt 5) GameState_init) = [] \<and>
   restore_checkpoint 7 (GameState_set ''score'' (VInt 5) GameState_init) =
     Inr (GameState_set ''score'' (VInt 5) GameState_init) \<and>
   restore_checkpoint0 (GameState_set ''score'' (VInt 5) GameState_init) =
     Inr (GameState_set ''score'' (VInt 5) GameState_init)"
proof -
  have h: "history (GameState_set ''score'' (VInt 5) GameState_init) = []"
    by (simp add: set_fields GameState_init_def)
  from restore_without_checkpoint [OF h, of 7] h show ?thesis by blast
qed

text \<open>
  C8. \<^verbatim>\<open>save_checkpoint()\<close> followed at once by \<^verbatim>\<open>restore_checkpoint()\<close> succeeds and
  leaves a current mapping with the same keys bound to the same values as before the
  two calls (it is a new dict object with equal contents).
\<close>

theorem save_then_restore:
  "\<exists>w'. restore_checkpoint0 (save_checkpoint w) = Inr w' \<and> current w' = current w \<and>
        dom (current w') = dom (current w)"
  by (simp add: restore_checkpoint0_def restore_last save_fields current_def)

section \<open>Which calls can raise\<close>

text \<open>
  C5, as the code has it. \<^verbatim>\<open>set\<close>, \<^verbatim>\<open>get\<close> and \<^verbatim>\<open>save_checkpoint\<close> return normally on
  every state and every argument. \<^verbatim>\<open>restore_checkpoint(index)\<close> returns normally exactly
  when the history is empty or \<open>-len(history) \<le> index < len(history)\<close>; on a non-empty
  history and any other index it raises \<^verbatim>\<open>IndexError\<close>.
\<close>

theorem operations_total:
  "(\<exists>r. invoke (Set k v) w = Inr r) \<and>
   (\<exists>r. invoke (Get k d) w = Inr r) \<and>
   (\<exists>r. invoke SaveCheckpoint w = Inr r) \<and>
   ((\<exists>w'. restore_checkpoint index w = Inr w') \<longleftrightarrow>
      history w = [] \<or>
      (- int (length (history w)) \<le> index \<and> index < int (length (history w)))) \<and>
   (restore_checkpoint index w = Inl IndexError \<longleftrightarrow>
      history w \<noteq> [] \<and>
      (index < - int (length (history w)) \<or> int (length (history w)) \<le> index))"
proof -
  have r: "(\<exists>w'. restore_checkpoint index w = Inr w') \<longleftrightarrow>
      history w = [] \<or>
      (- int (length (history w)) \<le> index \<and> index < int (length (history w)))"
    by (auto simp: restore_checkpoint_def list_getitem_def dict_copy_def)
  have e: "restore_checkpoint index w = Inl IndexError \<longleftrightarrow>
      history w \<noteq> [] \<and>
      (index < - int (length (history w)) \<or> int (length (history w)) \<le> index)"
    by (auto simp: restore_checkpoint_def list_getitem_def dict_copy_def)
  from r e show ?thesis by simp
qed

theorem operations_total_witness:
  "(\<exists>w'. restore_checkpoint (- 1) (save_checkpoint GameState_init) = Inr w') \<and>
   restore_checkpoint (- 2) (save_checkpoint GameState_init) = Inl IndexError"
proof -
  have h: "history (save_checkpoint GameState_init) = [1]"
    by (simp add: save_fields GameState_init_def)
  from operations_total [of _ _ "save_checkpoint GameState_init" _ "- 1"] h
  have a: "\<exists>w'. restore_checkpoint (- 1) (save_checkpoint GameState_init) = Inr w'"
    by simp
  from operations_total [of _ _ "save_checkpoint GameState_init" _ "- 2"] h
  have b: "restore_checkpoint (- 2) (save_checkpoint GameState_init) = Inl IndexError"
    by simp
  from a b show ?thesis by blast
qed

text \<open>
  C5 as the specification states it (no error for any index) fails: with one checkpoint
  saved, \<^verbatim>\<open>restore_checkpoint(1)\<close> raises \<^verbatim>\<open>IndexError\<close>. The guard of the method only
  asks whether the history is empty.
\<close>

theorem restore_out_of_range_raises:
  "restore_checkpoint 1 (save_checkpoint GameState_init) = Inl IndexError"
  by (simp add: restore_checkpoint_def list_getitem_def save_fields GameState_init_def)

section \<open>Keys that are not bound\<close>

text \<open>
  C6. For a key \<open>k\<close> that the current mapping does not bind, \<^verbatim>\<open>get(k, d)\<close> returns the
  default \<open>d\<close> supplied, \<^verbatim>\<open>get(k)\<close> returns \<^verbatim>\<open>None\<close>, and the call leaves the whole state
  (current mapping and history) as it was. A key that no \<^verbatim>\<open>set\<close> call has named since
  the GameState was created is such a key (\<open>never_set_unbound\<close>).
\<close>

theorem get_unset_key:
  assumes "k \<notin> dom (current w)"
  shows "GameState_get k d w = d \<and> GameState_get1 k w = VNone \<and>
         invoke (Get k d) w = Inr (d, w)"
  using assms by (auto simp: GameState_get_def GameState_get1_def dict_get_def current_def)

theorem get_unset_key_witness:
  "''lives'' \<notin> dom (current (GameState_set ''score'' (VInt 5) GameState_init)) \<and>
   GameState_get ''lives'' (VInt 3) (GameState_set ''score'' (VInt 5) GameState_init) = VInt 3 \<and>
   GameState_get1 ''lives'' (GameState_set ''score'' (VInt 5) GameState_init) = VNone"
proof -
  have h: "''lives'' \<notin> dom (current (GameState_set ''score'' (VInt 5) GameState_init))"
    by (simp add: current_def set_fields GameState_init_def)
  from get_unset_key [OF h, of "VInt 3"] h show ?thesis by blast
qed

section \<open>What a snapshot shares with the live state\<close>

text \<open>
  C7. \<^verbatim>\<open>save_checkpoint\<close> copies the dict, not the values in it. When the current mapping
  binds \<open>k\<close> to a nested dict object \<open>a\<close>, the history entry that \<^verbatim>\<open>save_checkpoint()\<close>
  appends binds \<open>k\<close> to the same object \<open>a\<close>, as the current mapping still does. So
  the client statement \<^verbatim>\<open>state.get(k)[k2] = v\<close> mutates \<open>a\<close> in place, and reading
  \<^verbatim>\<open>[k][k2]\<close> through the snapshot, which gave what \<open>a\<close> held at \<open>k2\<close> before, gives
  \<open>v\<close> afterwards.
\<close>

theorem snapshot_shares_nested:
  assumes "current w k = Some (VRef a)" and "a < next_free w"
  shows "cells (save_checkpoint w) (last (history (save_checkpoint w))) k = Some (VRef a) \<and>
         current (save_checkpoint w) k = Some (VRef a) \<and>
         nested_lookup (last (history (save_checkpoint w))) k k2 (save_checkpoint w) =
           cells w a k2 \<and>
         nested_setitem k k2 v (save_checkpoint w) =
           Inr (dict_setitem a k2 v (save_checkpoint w)) \<and>
         history (dict_setitem a k2 v (save_checkpoint w)) = history (save_checkpoint w) \<and>
         nested_lookup (last (history (save_checkpoint w))) k k2
           (dict_setitem a k2 v (save_checkpoint w)) = Some v"
proof -
  let ?w1 = "save_checkpoint w"
  let ?s = "last (history ?w1)"
  have s: "?s = next_free w" by (simp add: save_fields)
  from assms(2) have ne: "a \<noteq> next_free w" by simp
  have snap: "cells ?w1 ?s k = Some (VRef a)"
    using assms(1) by (simp add: save_fields current_def)
  have live: "current ?w1 k = Some (VRef a)"
    using assms(1) by (simp add: save_fields current_def)
  have before: "nested_lookup ?s k k2 ?w1 = cells w a k2"
    using snap ne by (simp add: nested_lookup_def save_fields)
  have mut: "nested_setitem k k2 v ?w1 = Inr (dict_setitem a k2 v ?w1)"
    using live by (simp add: nested_setitem_def GameState_get1_def GameState_get_def
        dict_get_def current_def)
  have h: "history (dict_setitem a k2 v ?w1) = history ?w1"
    by (simp add: dict_setitem_def)
  have "cells (dict_setitem a k2 v ?w1) ?s k = Some (VRef a)"
    using snap ne by (simp add: dict_setitem_def save_fields)
  then have after: "nested_lookup ?s k k2 (dict_setitem a k2 v ?w1) = Some v"
    by (simp add: nested_lookup_def dict_setitem_def)
  from snap live before mut h after show ?thesis by blast
qed

theorem snapshot_shares_nested_witness:
  "current (GameState_set ''inv'' (VRef 1) (snd (dict_new GameState_init))) ''inv'' =
     Some (VRef 1) \<and>
   (1::nat) < next_free (GameState_set ''inv'' (VRef 1) (snd (dict_new GameState_init))) \<and>
   nested_lookup 2 ''inv'' ''sword''
     (save_checkpoint (GameState_set ''inv'' (VRef 1) (snd (dict_new GameState_init)))) = None \<and>
   nested_lookup 2 ''inv'' ''sword''
     (dict_setitem 1 ''sword'' (VInt 1)
        (save_checkpoint (GameState_set ''inv'' (VRef 1) (snd (dict_new GameState_init))))) =
     Some (VInt 1)"
proof -
  let ?w = "GameState_set ''inv'' (VRef 1) (snd (dict_new GameState_init))"
  have c: "current ?w ''inv'' = Some (VRef 1)"
    by (simp add: current_def set_fields dict_new_def GameState_init_def)
  have n: "(1::nat) < next_free ?w"
    by (simp add: set_fields dict_new_def GameState_init_def)
  have l: "last (history (save_checkpoint ?w)) = 2"
    by (simp add: save_fields set_fields dict_new_def GameState_init_def)
  have e: "cells ?w 1 ''sword'' = None"
    by (simp add: set_fields dict_new_def GameState_init_def)
  from snapshot_shares_nested [OF c n, of "''sword''" "VInt 1"] l e c n
  show ?thesis by simp
qed

section \<open>The history only grows\<close>

text \<open>
  C9. On a state the class maintains: \<^verbatim>\<open>set\<close> leaves the history and the contents of
  its entries as they were, and so does \<^verbatim>\<open>get\<close>, which returns the state untouched;
  \<^verbatim>\<open>save_checkpoint\<close> appends exactly one entry, holding the current bindings, after
  the entries there were, which keep their contents; \<^verbatim>\<open>restore_checkpoint\<close> with an
  index in range on a non-empty history succeeds and leaves the history and the contents
  of its entries as they were (the restored snapshot stays), as does every other call of
  it that returns.
\<close>

theorem history_append_only:
  assumes "GameState_ok w"
  shows "history (GameState_set k v w) = history w \<and>
         snapshots (GameState_set k v w) = snapshots w \<and>
         invoke (Get k d) w = Inr (GameState_get k d w, w) \<and>
         history (save_checkpoint w) = history w @ [next_free w] \<and>
         snapshots (save_checkpoint w) = snapshots w @ [current w] \<and>
         (\<forall>i. history w \<noteq> [] \<and> - int (length (history w)) \<le> i \<and> i < int (length (history w))
            \<longrightarrow> (\<exists>w'. restore_checkpoint i w = Inr w' \<and> history w' = history w \<and>
                   snapshots w' = snapshots w)) \<and>
         (\<forall>i w'. restore_checkpoint i w = Inr w' \<longrightarrow>
            history w' = history w \<and> snapshots w' = snapshots w)"
proof -
  have fresh: "a \<noteq> next_free w" if "a \<in> set (history w)" for a
    using assms that by (auto simp: GameState_ok_def)
  have live: "a \<noteq> data w" if "a \<in> set (history w)" for a
    using assms that by (auto simp: GameState_ok_def)
  have s: "snapshots (GameState_set k v w) = snapshots w"
    using live by (simp add: snapshots_def set_fields)
  have c: "snapshots (save_checkpoint w) = snapshots w @ [current w]"
    using fresh by (simp add: snapshots_def save_fields current_def)
  have r: "history w' = history w \<and> snapshots w' = snapshots w"
    if "restore_checkpoint i w = Inr w'" for i w'
  proof (cases "history w = []")
    case True
    with that show ?thesis by (simp add: restore_empty)
  next
    case False
    with that obtain src where src: "list_getitem (history w) i = Inr src"
      by (auto simp: restore_checkpoint_def split: sum.splits)
    from that restore_fields[OF src] fresh show ?thesis
      by (auto simp: snapshots_def)
  qed
  have t: "\<exists>w'. restore_checkpoint i w = Inr w' \<and> history w' = history w \<and>
                   snapshots w' = snapshots w"
    if "history w \<noteq> [] \<and> - int (length (history w)) \<le> i \<and> i < int (length (history w))" for i
  proof -
    from that list_getitem_Inr_iff[of "history w" i] obtain src
      where "list_getitem (history w) i = Inr src" by blast
    then obtain w' where "restore_checkpoint i w = Inr w'"
      using restore_fields by blast
    with r show ?thesis by blast
  qed
  from s c r t show ?thesis by (simp add: set_fields save_fields)
qed

theorem history_append_only_witness:
  "GameState_ok (save_checkpoint (GameState_set ''score'' (VInt 1) GameState_init)) \<and>
   history (GameState_set ''score'' (VInt 2)
     (save_checkpoint (GameState_set ''score'' (VInt 1) GameState_init))) = [1] \<and>
   history (save_checkpoint
     (save_checkpoint (GameState_set ''score'' (VInt 1) GameState_init))) = [1, 2] \<and>
   (\<exists>w'. restore_checkpoint 0
       (save_checkpoint (GameState_set ''score'' (VInt 1) GameState_init)) = Inr w' \<and>
     history w' = [1])"
proof -
  let ?w = "save_checkpoint (GameState_set ''score'' (VInt 1) GameState_init)"
  have ok: "GameState_ok ?w"
    by (simp add: ok_init ok_set ok_save)
  have h: "history ?w = [1]" "next_free ?w = 2"
    by (simp_all add: save_fields set_fields GameState_init_def)
  note t = history_append_only [OF ok, of "''score''" "VInt 2"]
  from t h have a: "history (GameState_set ''score'' (VInt 2) ?w) = [1]"
    by simp
  from t h have b: "history (save_checkpoint ?w) = [1, 2]"
    by simp
  from t have "\<forall>i. history ?w \<noteq> [] \<and> - int (length (history ?w)) \<le> i \<and>
        i < int (length (history ?w)) \<longrightarrow>
      (\<exists>w'. restore_checkpoint i ?w = Inr w' \<and> history w' = history ?w \<and>
         snapshots w' = snapshots ?w)"
    by simp
  from this [rule_format, of 0] h
  have c: "\<exists>w'. restore_checkpoint 0 ?w = Inr w' \<and> history w' = [1]"
    by auto
  note a b c
  with ok show ?thesis by blast
qed

section \<open>The number that the loop returns\<close>

text \<open>
  C10. Whenever \<^verbatim>\<open>get_number(prompt, min_val, max_val)\<close> returns on a finite input stream,
  the value \<open>v\<close> returned satisfies \<open>min_val \<le> v\<close> if \<open>min_val\<close> was supplied and
  \<open>v \<le> max_val\<close> if \<open>max_val\<close> was supplied; it is the conversion of one line of the
  input, every line before that one failed to convert or violated a bound, and the lines
  after it are left unread. (It returns exactly when some line is acceptable,
  \<open>get_number_returns\<close>; otherwise the stream runs out and \<^verbatim>\<open>EOFError\<close> is raised,
  \<open>get_number_eof\<close>.)
\<close>

theorem get_number_in_range:
  assumes "snd (get_number parse prompt min_val max_val lines) = Inr (v, rest)"
  shows "(\<forall>lo. min_val = Some lo \<longrightarrow> lo \<le> v) \<and>
         (\<forall>hi. max_val = Some hi \<longrightarrow> v \<le> hi) \<and>
         (\<exists>skipped line. lines = skipped @ line # rest \<and> parse line = Some v \<and>
            (\<forall>l \<in> set skipped. \<not> accepted parse min_val max_val l))"
proof -
  from get_number_skips[OF assms] obtain skipped line where
    sk: "lines = skipped @ line # rest" "parse line = Some v"
      "accepted parse min_val max_val line"
      "\<forall>l \<in> set skipped. \<not> accepted parse min_val max_val l"
    by blast
  from sk(2,3) have "(\<forall>lo. min_val = Some lo \<longrightarrow> lo \<le> v) \<and> (\<forall>hi. max_val = Some hi \<longrightarrow> v \<le> hi)"
    by (auto simp: accepted_def)
  with sk show ?thesis by blast
qed

theorem get_number_in_range_witness:
  "snd (get_number decimal ''> '' (Some 1) (Some 10) [''abc'', ''0'', ''11'', ''7'', ''3'']) =
     Inr (7, [''3'']) \<and>
   (1::int) \<le> 7 \<and> (7::int) \<le> 10 \<and>
   (\<exists>skipped line. [''abc'', ''0'', ''11'', ''7'', ''3''] = skipped @ line # [''3''] \<and>
      decimal line = Some 7 \<and> list_all (\<lambda>l. \<not> accepted decimal (Some 1) (Some 10) l) skipped)"
proof -
  have r: "snd (get_number decimal ''> '' (Some 1) (Some 10)
      [''abc'', ''0'', ''11'', ''7'', ''3'']) = Inr (7, [''3''])"
    by (simp add: digit_of_def emit_def)
  from get_number_in_range [OF r] r show ?thesis
    by (simp add: list_all_iff)
qed

end
